theory Spec2Isabelle
  imports Main "HOL-Library.AList"
begin

section \<open>The document tree\<close>

text \<open>
  The nodes that an HTML fragment parsed through a \<^verbatim>\<open>template\<close> element can hold:
  elements, text and comments. An element has its tag (\<^verbatim>\<open>nodeName\<close>, in upper case for
  an HTML element), its attributes in the order of its \<^verbatim>\<open>attributes\<close> map, its child
  nodes and, if it is a form control, the state of the control: its current value and its
  dirty value flag, which is set once the user or a script has given the control a value.
  The value of a control is the element's own state, apart from the declared \<^verbatim>\<open>value\<close>
  attribute.
\<close>

type_synonym attrs = "(string \<times> string) list"
type_synonym control = "string \<times> bool"

datatype node =
    TextNode string
  | ElementNode string attrs "node list" "control option"
  | CommentNode string

datatype exn = SyntaxError | TypeError | HierarchyRequestError


definition ELEMENT_NODE :: nat where "ELEMENT_NODE = 1"
definition TEXT_NODE :: nat where "TEXT_NODE = 3"
definition COMMENT_NODE :: nat where "COMMENT_NODE = 8"

fun nodeType :: "node \<Rightarrow> nat" where
  "nodeType (ElementNode t a cs v) = ELEMENT_NODE"
| "nodeType (TextNode s) = TEXT_NODE"
| "nodeType (CommentNode s) = COMMENT_NODE"

fun childNodes :: "node \<Rightarrow> node list" where
  "childNodes (ElementNode t a cs v) = cs"
| "childNodes (TextNode s) = []"
| "childNodes (CommentNode s) = []"

definition getAttribute :: "attrs \<Rightarrow> string \<Rightarrow> string option" where
  "getAttribute as name = map_of as name"


text \<open>
  The list of attributes with one attribute removed or set: an attribute that exists keeps
  its place, a new one goes to the end. The methods \<^verbatim>\<open>removeAttribute\<close> and
  \<^verbatim>\<open>setAttribute\<close> of an element, which change the list and let the element react,
  follow below.
\<close>

definition withoutAttribute :: "string \<Rightarrow> attrs \<Rightarrow> attrs" where
  "withoutAttribute name as = AList.delete name as"



subsection \<open>The value property of an element\<close>




















section \<open>lib/diff.js\<close>

subsection \<open>syncAttrs\<close>




subsection \<open>patch and reconcileChildren\<close>



subsection \<open>Well-formed trees and their equality\<close>











subsection \<open>Invariants of the two loops of syncAttrs\<close>




section \<open>lib/act.js\<close>

subsection \<open>The application state\<close>

text \<open>
  \<^verbatim>\<open>createApp(container)\<close> closes over a handful of variables; the record holds them,
  under their names, together with the parts of the host that the library acts on: the
  children of the container element, the microtask queue, the host's active timers, the
  listeners attached to elements, and the console.

  Objects used as dictionaries (\<^verbatim>\<open>globalState\<close>, \<^verbatim>\<open>scopes\<close>, \<^verbatim>\<open>handlers\<close>, a scope's
  \<^verbatim>\<open>localState\<close>) are association lists of their own properties: \<open>AList.update\<close>
  assigns a key, \<open>AList.delete\<close> deletes it, \<^verbatim>\<open>Object.keys\<close> lists the own keys. The
  dictionaries are plain objects, so that reading \<^verbatim>\<open>obj[key]\<close> finds, where the object
  has no property of its own under the key, the member that every plain object inherits
  under that name (\<^verbatim>\<open>toString\<close>, \<^verbatim>\<open>constructor\<close> and the like): \<open>getProperty\<close> below.
  An assignment to the key \<^verbatim>\<open>__proto__\<close> does not make a property but sets the
  prototype of the dictionary, and the model does not follow prototypes other than the
  initial one: a statement below that depends on what a dictionary answers under a key
  is about calls that assign no such key. The library itself never assigns that key to
  the registry of scopes. The sets of timer ids are lists without repetition.

  A scope object is known by the name its methods close over and by the number of its
  instance; \<^verbatim>\<open>localStates\<close> holds the \<^verbatim>\<open>localState\<close> of every instance created so far,
  and \<^verbatim>\<open>scopes\<close> maps a registered name to its instance. A reference to a scope stays
  usable after the scope has left the registry, as in the source.

  An element of a rendered tree is known by the number of the render cycle that produced
  it and by its path of child indices below the container. A callback is a function of
  the application, known by the identity of its function object; it is none of the
  members that objects inherit. The style sheets that \<^verbatim>\<open>mount\<close> and \<^verbatim>\<open>destroy\<close> adopt
  and release, and the focus and cursor that \<^verbatim>\<open>rerender\<close> saves before and restores
  after its work, act on no variable below and are left out.
\<close>

datatype jsval = VNum int | VStr string | VBool bool | VArr "jsval list"

type_synonym callback = nat
type_synonym path = "nat list"
type_synonym elem = "nat \<times> path"
type_synonym scopeRef = "string \<times> nat"
type_synonym dict = "(string \<times> jsval) list"

text \<open>
  The names of the members of \<^verbatim>\<open>Object.prototype\<close>, and the result of reading
  \<^verbatim>\<open>obj[key]\<close> on a plain object with the own properties \<open>obj\<close>: the own property, or
  the inherited member (a function, for \<^verbatim>\<open>__proto__\<close> the prototype object: none of
  them is falsy), or \<^verbatim>\<open>undefined\<close>.
\<close>

definition objectPrototype :: "string list" where
  "objectPrototype =
     [''constructor'', ''__defineGetter__'', ''__defineSetter__'', ''hasOwnProperty'',
      ''__lookupGetter__'', ''__lookupSetter__'', ''isPrototypeOf'', ''propertyIsEnumerable'',
      ''toString'', ''valueOf'', ''__proto__'', ''toLocaleString'']"

datatype 'v property = Own 'v | Inherited string | Undefined

definition getProperty :: "(string \<times> 'v) list \<Rightarrow> string \<Rightarrow> 'v property" where
  "getProperty obj key =
     (case map_of obj key of
        Some v \<Rightarrow> Own v
      | None \<Rightarrow> if key \<in> set objectPrototype then Inherited key else Undefined)"

text \<open>
  A listener: the element, the event and the handler, which is what the registry gave
  under the handler's name.
\<close>

type_synonym listener = "elem \<times> string \<times> callback property"

text \<open>
  The render function reads the global state it is given and, through the scopes its
  closure holds, the registry and the local states; it returns the nodes of a fresh
  fragment.
\<close>

type_synonym renderer = "dict \<times> (string \<times> nat) list \<times> dict list \<Rightarrow> node list"

datatype timerKind = Interval | Timeout

datatype message =
    ScopeExists string
  | ScopeNotFound string
  | NoHandler string
  | Destroyed

record app =
  container :: "node list"
  globalState :: dict
  scopes :: "(string \<times> nat) list"
  localStates :: "dict list"
  renderFn :: "renderer option"
  mounted :: bool
  activeListeners :: "listener list"
  intervals :: "nat list"
  timeouts :: "nat list"
  rerenderScheduled :: bool
  handlers :: "(string \<times> callback) list"
  microtasks :: nat
  timers :: "(nat \<times> timerKind \<times> callback) list"
  nextTimer :: nat
  attached :: "listener list"
  console :: "message list"
  renders :: nat

definition createApp :: "node list \<Rightarrow> app" where
  "createApp c = \<lparr>container = c, globalState = [], scopes = [], localStates = [],
     renderFn = None, mounted = False, activeListeners = [], intervals = [], timeouts = [],
     rerenderScheduled = False, handlers = [], microtasks = 0, timers = [], nextTimer = 1,
     attached = [], console = [], renders = 0\<rparr>"

text \<open>\<^verbatim>\<open>Object.keys\<close> of a dictionary: each key once, in the order of first assignment.\<close>

definition keys :: "(string \<times> 'v) list \<Rightarrow> string list" where
  "keys d = remdups (map fst d)"

text \<open>\<^verbatim>\<open>Set.prototype.add\<close> and \<^verbatim>\<open>delete\<close>.\<close>

definition setAdd :: "nat \<Rightarrow> nat list \<Rightarrow> nat list" where
  "setAdd x xs = (if x \<in> set xs then xs else xs @ [x])"

definition setDelete :: "nat \<Rightarrow> nat list \<Rightarrow> nat list" where
  "setDelete x xs = removeAll x xs"

subsection \<open>Scheduling\<close>

text \<open>
  \<^verbatim>\<open>queueMicrotask\<close> appends the one callback \<^verbatim>\<open>scheduleRerender\<close> ever queues;
  \<open>microtasks\<close> counts the callbacks waiting.
\<close>

definition scheduleRerender :: "app \<Rightarrow> app" where
  "scheduleRerender s =
     (if \<not> rerenderScheduled s
      then s\<lparr>rerenderScheduled := True, microtasks := microtasks s + 1\<rparr>
      else s)"

subsection \<open>Global state\<close>

definition setState :: "string \<Rightarrow> jsval \<Rightarrow> app \<Rightarrow> app" where
  "setState key v s =
     (let s' = s\<lparr>globalState := AList.update key v (globalState s)\<rparr>
      in if mounted s' then scheduleRerender s' else s')"

definition getState :: "string \<Rightarrow> app \<Rightarrow> jsval property" where
  "getState key s = getProperty (globalState s) key"

definition deleteState :: "string \<Rightarrow> app \<Rightarrow> app" where
  "deleteState key s = s\<lparr>globalState := AList.delete key (globalState s)\<rparr>"

subsection \<open>Scopes\<close>

text \<open>
  \<^verbatim>\<open>createScope\<close> and \<^verbatim>\<open>getScope\<close> return what \<^verbatim>\<open>scopes[name]\<close> holds: a scope
  object, \<open>Own\<close> with its reference, or the member that the registry inherits under the
  name, which is no scope. \<open>Undefined\<close> stands for the \<^verbatim>\<open>null\<close> of \<^verbatim>\<open>getScope\<close>.
\<close>

definition createScope :: "string \<Rightarrow> app \<Rightarrow> app \<times> scopeRef property" where
  "createScope name s =
     (case getProperty (scopes s) name of
        Own i \<Rightarrow> (s\<lparr>console := console s @ [ScopeExists name]\<rparr>, Own (name, i))
      | Inherited m \<Rightarrow> (s\<lparr>console := console s @ [ScopeExists name]\<rparr>, Inherited m)
      | Undefined \<Rightarrow>
          (let i = length (localStates s)
           in (s\<lparr>localStates := localStates s @ [[]],
                  scopes := AList.update name i (scopes s)\<rparr>, Own (name, i))))"

definition getScope :: "string \<Rightarrow> app \<Rightarrow> app \<times> scopeRef property" where
  "getScope name s =
     (case getProperty (scopes s) name of
        Undefined \<Rightarrow> (s\<lparr>console := console s @ [ScopeNotFound name]\<rparr>, Undefined)
      | Own i \<Rightarrow> (s, Own (name, i))
      | Inherited m \<Rightarrow> (s, Inherited m))"

definition scopeSetState :: "scopeRef \<Rightarrow> string \<Rightarrow> jsval \<Rightarrow> app \<Rightarrow> app" where
  "scopeSetState r key v s =
     (let s' = s\<lparr>localStates :=
                  (localStates s)[snd r := AList.update key v (localStates s ! snd r)]\<rparr>
      in if mounted s' then scheduleRerender s' else s')"

definition scopeGetState :: "scopeRef \<Rightarrow> string \<Rightarrow> app \<Rightarrow> jsval property" where
  "scopeGetState r key s =
     (if snd r < length (localStates s) then getProperty (localStates s ! snd r) key
      else Undefined)"

definition scopeDeleteState :: "scopeRef \<Rightarrow> string \<Rightarrow> app \<Rightarrow> app" where
  "scopeDeleteState r key s =
     s\<lparr>localStates := (localStates s)[snd r := AList.delete key (localStates s ! snd r)]\<rparr>"

definition scopeGetGlobal :: "scopeRef \<Rightarrow> string \<Rightarrow> app \<Rightarrow> jsval property" where
  "scopeGetGlobal r key s = getProperty (globalState s) key"

text \<open>The key \<^verbatim>\<open>`${name}:${handlerName}`\<close>.\<close>

definition scopeHandler :: "scopeRef \<Rightarrow> string \<Rightarrow> string" where
  "scopeHandler r handlerName = fst r @ '':'' @ handlerName"

definition scopeOn :: "scopeRef \<Rightarrow> string \<Rightarrow> callback \<Rightarrow> app \<Rightarrow> app" where
  "scopeOn r handlerName fn s =
     s\<lparr>handlers := AList.update (fst r @ '':'' @ handlerName) fn (handlers s)\<rparr>"

definition scopeOff :: "scopeRef \<Rightarrow> string \<Rightarrow> app \<Rightarrow> app" where
  "scopeOff r handlerName s =
     s\<lparr>handlers := AList.delete (fst r @ '':'' @ handlerName) (handlers s)\<rparr>"

definition scopeAll :: "scopeRef \<Rightarrow> app \<Rightarrow> dict" where
  "scopeAll r s = (if snd r < length (localStates s) then localStates s ! snd r else [])"

definition startsWith :: "string \<Rightarrow> string \<Rightarrow> bool" where
  "startsWith s p = (take (length p) s = p)"

text \<open>The two loops of a scope's \<^verbatim>\<open>destroy\<close>, over \<^verbatim>\<open>Object.keys\<close> of the dictionary.\<close>

fun deletePrefixed :: "string \<Rightarrow> string list \<Rightarrow> (string \<times> 'v) list \<Rightarrow> (string \<times> 'v) list" where
  "deletePrefixed p [] d = d"
| "deletePrefixed p (k # ks) d =
     deletePrefixed p ks (if startsWith k p then AList.delete k d else d)"

fun deleteEach :: "string list \<Rightarrow> (string \<times> 'v) list \<Rightarrow> (string \<times> 'v) list" where
  "deleteEach [] d = d"
| "deleteEach (k # ks) d = deleteEach ks (AList.delete k d)"

definition scopeDestroy :: "scopeRef \<Rightarrow> app \<Rightarrow> app" where
  "scopeDestroy r s =
     s\<lparr>handlers := deletePrefixed (fst r @ '':'') (keys (handlers s)) (handlers s),
       localStates :=
         (localStates s)[snd r := deleteEach (keys (localStates s ! snd r)) (localStates s ! snd r)],
       scopes := AList.delete (fst r) (scopes s)\<rparr>"

subsection \<open>Global handlers\<close>

definition on :: "string \<Rightarrow> callback \<Rightarrow> app \<Rightarrow> app" where
  "on name fn s = s\<lparr>handlers := AList.update name fn (handlers s)\<rparr>"

definition off :: "string \<Rightarrow> app \<Rightarrow> app" where
  "off name s = s\<lparr>handlers := AList.delete name (handlers s)\<rparr>"

subsection \<open>Safe timers\<close>

text \<open>
  The host hands out timer ids from one counter and keeps intervals and timeouts in one
  table, so that \<^verbatim>\<open>clearInterval\<close> and \<^verbatim>\<open>clearTimeout\<close> each clear a timer of either
  kind. A timer fires only while it is in the table.
\<close>

definition clearTimer ::
  "nat \<Rightarrow> (nat \<times> timerKind \<times> callback) list \<Rightarrow> (nat \<times> timerKind \<times> callback) list" where
  "clearTimer i ts = filter (\<lambda>t. fst t \<noteq> i) ts"

definition safeSetInterval :: "callback \<Rightarrow> nat \<Rightarrow> app \<Rightarrow> app \<times> nat" where
  "safeSetInterval fn ms s =
     (let i = nextTimer s
      in (s\<lparr>timers := timers s @ [(i, Interval, fn)], nextTimer := i + 1,
             intervals := setAdd i (intervals s)\<rparr>, i))"

definition safeClearInterval :: "nat \<Rightarrow> app \<Rightarrow> app" where
  "safeClearInterval i s =
     s\<lparr>timers := clearTimer i (timers s), intervals := setDelete i (intervals s)\<rparr>"

definition safeSetTimeout :: "callback \<Rightarrow> nat \<Rightarrow> app \<Rightarrow> app \<times> nat" where
  "safeSetTimeout fn ms s =
     (let i = nextTimer s
      in (s\<lparr>timers := timers s @ [(i, Timeout, fn)], nextTimer := i + 1,
             timeouts := setAdd i (timeouts s)\<rparr>, i))"

definition safeClearTimeout :: "nat \<Rightarrow> app \<Rightarrow> app" where
  "safeClearTimeout i s =
     s\<lparr>timers := clearTimer i (timers s), timeouts := setDelete i (timeouts s)\<rparr>"

text \<open>
  The host fires a timeout that is still in its table: the timer leaves the table and the
  wrapper of \<^verbatim>\<open>safeSetTimeout\<close> takes the id out of \<^verbatim>\<open>timeouts\<close> before it calls the
  user's function.
\<close>

definition timeoutFires :: "nat \<Rightarrow> app \<Rightarrow> app" where
  "timeoutFires i s =
     (if i \<in> fst ` set (filter (\<lambda>t. fst (snd t) = Timeout) (timers s))
      then s\<lparr>timers := clearTimer i (timers s), timeouts := setDelete i (timeouts s)\<rparr>
      else s)"

subsection \<open>Listeners\<close>

text \<open>
  An element holds a listener for an event and a callback at most once:
  \<^verbatim>\<open>addEventListener\<close> ignores a listener that is there, \<^verbatim>\<open>removeEventListener\<close>
  removes the one that matches.
\<close>

definition addEventListener :: "listener \<Rightarrow> listener list \<Rightarrow> listener list" where
  "addEventListener l ls = (if l \<in> set ls then ls else ls @ [l])"

definition removeEventListener :: "listener \<Rightarrow> listener list \<Rightarrow> listener list" where
  "removeEventListener l ls = removeAll l ls"

fun removeListeners :: "listener list \<Rightarrow> listener list \<Rightarrow> listener list" where
  "removeListeners [] ls = ls"
| "removeListeners (l # rest) ls = removeListeners rest (removeEventListener l ls)"

definition cleanupListeners :: "app \<Rightarrow> app" where
  "cleanupListeners s =
     s\<lparr>attached := removeListeners (activeListeners s) (attached s), activeListeners := []\<rparr>"

subsection \<open>Rendering\<close>

text \<open>
  \<^verbatim>\<open>root.querySelectorAll("[data-on]")\<close>: the elements below the root that have the
  attribute, in document order, each with its path and the attribute's value. The list is
  static, and \<^verbatim>\<open>bindEvents\<close> changes no \<^verbatim>\<open>data-on\<close> attribute but that of the element
  it has just bound, so the value read when the list is made is the value
  \<^verbatim>\<open>el.getAttribute("data-on")\<close> reads later.
\<close>

fun dataOnOf :: "path \<Rightarrow> node \<Rightarrow> (path \<times> string) list"
  and dataOnBelow :: "path \<Rightarrow> nat \<Rightarrow> node list \<Rightarrow> (path \<times> string) list" where
  "dataOnOf p (ElementNode t a cs v) =
     (case getAttribute a ''data-on'' of Some x \<Rightarrow> [(p, x)] | None \<Rightarrow> []) @ dataOnBelow p 0 cs"
| "dataOnOf p (TextNode s) = []"
| "dataOnOf p (CommentNode s) = []"
| "dataOnBelow p i [] = []"
| "dataOnBelow p i (n # ns) = dataOnOf (p @ [i]) n @ dataOnBelow p (Suc i) ns"

definition querySelectorAll_data_on :: "node list \<Rightarrow> (path \<times> string) list" where
  "querySelectorAll_data_on root = dataOnBelow [] 0 root"

text \<open>
  \<^verbatim>\<open>el.removeAttribute(name)\<close> for the element at a path below the container.
  \<^verbatim>\<open>bindEvents\<close> removes the \<^verbatim>\<open>data-on\<close> attribute only, to which no control reacts.
\<close>

fun removeAttributeOf :: "string \<Rightarrow> node \<Rightarrow> node" where
  "removeAttributeOf name (ElementNode t a cs v) = ElementNode t (withoutAttribute name a) cs v"
| "removeAttributeOf name (TextNode s) = TextNode s"
| "removeAttributeOf name (CommentNode s) = CommentNode s"

fun withChildNodes :: "node \<Rightarrow> node list \<Rightarrow> node" where
  "withChildNodes (ElementNode t a cs v) cs' = ElementNode t a cs' v"
| "withChildNodes (TextNode s) cs' = TextNode s"
| "withChildNodes (CommentNode s) cs' = CommentNode s"

fun removeAttributeAt :: "path \<Rightarrow> string \<Rightarrow> node list \<Rightarrow> node list" where
  "removeAttributeAt [] name ns = ns"
| "removeAttributeAt [i] name ns =
     (if i < length ns then ns[i := removeAttributeOf name (ns ! i)] else ns)"
| "removeAttributeAt (i # j # p) name ns =
     (if i < length ns
      then ns[i := withChildNodes (ns ! i) (removeAttributeAt (j # p) name (childNodes (ns ! i)))]
      else ns)"

text \<open>
  The host's \<^verbatim>\<open>JSON.parse\<close> followed by \<^verbatim>\<open>Object.entries\<close> is a parameter \<open>parse\<close> of
  the model: from the text of a \<^verbatim>\<open>data-on\<close> attribute to the exception raised or to the
  entries, event name and handler name, in the order \<^verbatim>\<open>Object.entries\<close> yields them.
\<close>

type_synonym parser = "string \<Rightarrow> exn + (string \<times> string) list"

text \<open>The body of the inner loop of \<^verbatim>\<open>bindEvents\<close>, for one entry of the event map.\<close>

definition bindEntry :: "elem \<Rightarrow> string \<times> string \<Rightarrow> app \<Rightarrow> app" where
  "bindEntry el entry s =
     (let handler = getProperty (handlers s) (snd entry)
      in if handler \<noteq> Undefined
         then s\<lparr>attached := addEventListener (el, fst entry, handler) (attached s),
                activeListeners := activeListeners s @ [(el, fst entry, handler)]\<rparr>
         else s\<lparr>console := console s @ [NoHandler (snd entry)]\<rparr>)"

fun bindEntries :: "elem \<Rightarrow> (string \<times> string) list \<Rightarrow> app \<Rightarrow> app" where
  "bindEntries el [] s = s"
| "bindEntries el (entry # rest) s = bindEntries el rest (bindEntry el entry s)"

text \<open>
  The \<^verbatim>\<open>forEach\<close> of \<^verbatim>\<open>bindEvents\<close>. An exception of \<^verbatim>\<open>JSON.parse\<close> is not caught: it
  ends the loop and leaves the state as it is then (\<open>Inl\<close>).
\<close>

fun bindElements :: "parser \<Rightarrow> (path \<times> string) list \<Rightarrow> app \<Rightarrow> exn \<times> app + app" where
  "bindElements parse [] s = Inr s"
| "bindElements parse ((p, text) # rest) s =
     (case parse text of
        Inl e \<Rightarrow> Inl (e, s)
      | Inr eventMap \<Rightarrow>
          (let s' = bindEntries (renders s, p) eventMap s
           in bindElements parse rest
                (s'\<lparr>container := removeAttributeAt p ''data-on'' (container s')\<rparr>)))"

definition bindEvents :: "parser \<Rightarrow> app \<Rightarrow> exn \<times> app + app" where
  "bindEvents parse s = bindElements parse (querySelectorAll_data_on (container s)) s"

text \<open>
  \<^verbatim>\<open>rerender\<close>. \<open>renders\<close> counts the render cycles that reached the render function;
  the elements of the new content belong to the cycle that made them.
\<close>

definition rerender :: "parser \<Rightarrow> app \<Rightarrow> exn \<times> app + app" where
  "rerender parse s =
     (case renderFn s of
        None \<Rightarrow> Inr s
      | Some fn \<Rightarrow>
          (let s1 = cleanupListeners s;
               content = fn (globalState s1, scopes s1, localStates s1);
               s2 = s1\<lparr>renders := renders s1 + 1\<rparr>;
               s3 = s2\<lparr>container := []\<rparr>;
               s4 = s3\<lparr>container := container s3 @ content\<rparr>
           in bindEvents parse s4))"

subsection \<open>Lifecycle\<close>

definition mount :: "parser \<Rightarrow> renderer \<Rightarrow> app \<Rightarrow> exn \<times> app + app" where
  "mount parse fn s = rerender parse (s\<lparr>renderFn := Some fn, mounted := True\<rparr>)"

fun clearTimers ::
  "nat list \<Rightarrow> (nat \<times> timerKind \<times> callback) list \<Rightarrow> (nat \<times> timerKind \<times> callback) list" where
  "clearTimers [] ts = ts"
| "clearTimers (i # rest) ts = clearTimers rest (clearTimer i ts)"

text \<open>
  The loop of \<^verbatim>\<open>destroy\<close> over \<^verbatim>\<open>Object.keys(scopes)\<close>: \<^verbatim>\<open>scopes[name].destroy()\<close>
  raises a \<^verbatim>\<open>TypeError\<close> when the name is no longer registered.
\<close>

fun destroyScopes :: "string list \<Rightarrow> app \<Rightarrow> exn \<times> app + app" where
  "destroyScopes [] s = Inr s"
| "destroyScopes (name # rest) s =
     (case map_of (scopes s) name of
        None \<Rightarrow> Inl (TypeError, s)
      | Some i \<Rightarrow> destroyScopes rest (scopeDestroy (name, i) s))"

definition destroy :: "app \<Rightarrow> exn \<times> app + app" where
  "destroy s =
     (let s1 = s\<lparr>mounted := False, renderFn := None\<rparr>;
          s2 = cleanupListeners s1;
          s3 = s2\<lparr>timers := clearTimers (intervals s2) (timers s2)\<rparr>\<lparr>intervals := []\<rparr>;
          s4 = s3\<lparr>timers := clearTimers (timeouts s3) (timers s3)\<rparr>\<lparr>timeouts := []\<rparr>
      in case destroyScopes (keys (scopes s4)) s4 of
           Inl err \<Rightarrow> Inl err
         | Inr s5 \<Rightarrow>
             Inr (s5\<lparr>container := [], globalState := [],
                     handlers := deleteEach (keys (handlers s5)) (handlers s5),
                     console := console s5 @ [Destroyed]\<rparr>))"

subsection \<open>The host's microtask checkpoint\<close>

text \<open>
  The callback that \<^verbatim>\<open>scheduleRerender\<close> queued. An exception that leaves it is reported
  by the host and ends this callback only.
\<close>

definition outcome :: "exn \<times> app + app \<Rightarrow> app" where
  "outcome r = (case r of Inl (e, s) \<Rightarrow> s | Inr s \<Rightarrow> s)"

definition rerenderTask :: "parser \<Rightarrow> app \<Rightarrow> app" where
  "rerenderTask parse s =
     outcome (rerender parse (s\<lparr>microtasks := microtasks s - 1, rerenderScheduled := False\<rparr>))"

text \<open>
  The checkpoint runs the queued callbacks until the queue is empty. The render function
  changes no state, so no callback is queued meanwhile and the queue is run in as many
  steps as it has callbacks.
\<close>

fun runMicrotasks :: "parser \<Rightarrow> nat \<Rightarrow> app \<Rightarrow> app" where
  "runMicrotasks parse 0 s = s"
| "runMicrotasks parse (Suc n) s = runMicrotasks parse n (rerenderTask parse s)"

definition checkpoint :: "parser \<Rightarrow> app \<Rightarrow> app" where
  "checkpoint parse s = runMicrotasks parse (microtasks s) s"

subsection \<open>Calls and events in sequence\<close>

datatype action =
    SetState string jsval
  | DeleteState string
  | CreateScope string
  | GetScope string
  | ScopeSetState scopeRef string jsval
  | ScopeDeleteState scopeRef string
  | ScopeOn scopeRef string callback
  | ScopeOff scopeRef string
  | ScopeDestroy scopeRef
  | On string callback
  | Off string
  | SafeSetInterval callback nat
  | SafeClearInterval nat
  | SafeSetTimeout callback nat
  | SafeClearTimeout nat
  | Mount renderer
  | Destroy
  | TimeoutFires nat
  | Checkpoint

text \<open>
  One call of the public surface, or one event of the host, on the state. A call that
  raises leaves the state it had reached.
\<close>

fun step :: "parser \<Rightarrow> action \<Rightarrow> app \<Rightarrow> app" where
  "step parse (SetState k v) s = setState k v s"
| "step parse (DeleteState k) s = deleteState k s"
| "step parse (CreateScope name) s = fst (createScope name s)"
| "step parse (GetScope name) s = fst (getScope name s)"
| "step parse (ScopeSetState r k v) s = scopeSetState r k v s"
| "step parse (ScopeDeleteState r k) s = scopeDeleteState r k s"
| "step parse (ScopeOn r h fn) s = scopeOn r h fn s"
| "step parse (ScopeOff r h) s = scopeOff r h s"
| "step parse (ScopeDestroy r) s = scopeDestroy r s"
| "step parse (On name fn) s = on name fn s"
| "step parse (Off name) s = off name s"
| "step parse (SafeSetInterval fn ms) s = fst (safeSetInterval fn ms s)"
| "step parse (SafeClearInterval i) s = safeClearInterval i s"
| "step parse (SafeSetTimeout fn ms) s = fst (safeSetTimeout fn ms s)"
| "step parse (SafeClearTimeout i) s = safeClearTimeout i s"
| "step parse (Mount fn) s = outcome (mount parse fn s)"
| "step parse Destroy s = outcome (destroy s)"
| "step parse (TimeoutFires i) s = timeoutFires i s"
| "step parse Checkpoint s = checkpoint parse s"

fun run :: "parser \<Rightarrow> action list \<Rightarrow> app \<Rightarrow> app" where
  "run parse [] s = s"
| "run parse (a # as) s = run parse as (step parse a s)"

section \<open>Notions used in the statements\<close>

text \<open>
  A node without its \<^verbatim>\<open>data-on\<close> attributes, at every depth: the attribute is
  render metadata that \<^verbatim>\<open>bindEvents\<close> takes off the elements it has bound.
\<close>

fun eraseDataOn :: "node \<Rightarrow> node" where
  "eraseDataOn (ElementNode t a cs v) =
     ElementNode t (withoutAttribute ''data-on'' a) (map eraseDataOn cs) v"
| "eraseDataOn (TextNode s) = TextNode s"
| "eraseDataOn (CommentNode s) = CommentNode s"

text \<open>
  The listeners that an event map declares for an element, given the registry: one for
  each entry whose handler name the registry answers, in the order of the entries. And the
  listeners that the \<^verbatim>\<open>data-on\<close> attributes of a tree declare for the elements of
  render cycle \<open>g\<close>, in document order.
\<close>

fun resolve :: "(string \<times> callback) list \<Rightarrow> elem \<Rightarrow> (string \<times> string) list \<Rightarrow> listener list" where
  "resolve hs el [] = []"
| "resolve hs el (entry # rest) =
     (if getProperty hs (snd entry) \<noteq> Undefined
      then [(el, fst entry, getProperty hs (snd entry))] else []) @ resolve hs el rest"

fun declared :: "parser \<Rightarrow> (string \<times> callback) list \<Rightarrow> nat \<Rightarrow> (path \<times> string) list \<Rightarrow> listener list" where
  "declared parse hs g [] = []"
| "declared parse hs g (t # rest) =
     (case parse (snd t) of Inr m \<Rightarrow> resolve hs (g, fst t) m | Inl e \<Rightarrow> []) @ declared parse hs g rest"





text \<open>
  The calls that take a scope name out of the registry: \<^verbatim>\<open>destroy\<close> of the
  application, and \<^verbatim>\<open>destroy\<close> of a scope object of that name.
\<close>

fun destroysScope :: "string \<Rightarrow> action \<Rightarrow> bool" where
  "destroysScope name Destroy = True"
| "destroysScope name (ScopeDestroy r) = (fst r = name)"
| "destroysScope name a = False"

text \<open>
  The two \<^verbatim>\<open>setState\<close> methods, of the application and of a scope.
\<close>

fun isSetState :: "action \<Rightarrow> bool" where
  "isSetState (SetState k v) = True"
| "isSetState (ScopeSetState r k v) = True"
| "isSetState a = False"

subsection \<open>Parts of the state and invariants of the reachable states\<close>

text \<open>
  \<open>core\<close> is what a render cycle leaves alone, \<open>shell\<close> what the \<^verbatim>\<open>destroy\<close> of
  a scope leaves alone.
\<close>

definition core where
  "core s = (globalState s, scopes s, localStates s, renderFn s, mounted s, intervals s,
     timeouts s, rerenderScheduled s, handlers s, microtasks s, timers s, nextTimer s)"

definition shell where
  "shell s = (container s, globalState s, renderFn s, mounted s, activeListeners s, intervals s,
     timeouts s, rerenderScheduled s, microtasks s, timers s, nextTimer s, attached s,
     console s, renders s)"

text \<open>
  Every timer of the host's table is tracked in \<^verbatim>\<open>intervals\<close> or \<^verbatim>\<open>timeouts\<close>; no
  scope is registered under the name of an inherited member; a registered scope has its
  local state; every listener on an element is recorded in
  \<^verbatim>\<open>activeListeners\<close>; the listeners on elements are the recorded ones and belong to
  the latest render cycle; the microtask queue holds the one callback exactly when
  \<^verbatim>\<open>rerenderScheduled\<close> is set, and a mounted application has its render function.
\<close>

definition timersTracked :: "app \<Rightarrow> bool" where
  "timersTracked s = (fst ` set (timers s) \<subseteq> set (intervals s) \<union> set (timeouts s))"

definition scopeNamesOwn :: "app \<Rightarrow> bool" where
  "scopeNamesOwn s = list_all (\<lambda>n. n \<notin> set objectPrototype) (map fst (scopes s))"

definition scopesInRange :: "app \<Rightarrow> bool" where
  "scopesInRange s = (\<forall>n i. map_of (scopes s) n = Some i \<longrightarrow> i < length (localStates s))"



definition queueConsistent :: "app \<Rightarrow> bool" where
  "queueConsistent s =
     ((mounted s \<longrightarrow> renderFn s \<noteq> None) \<and>
      microtasks s = (if rerenderScheduled s then 1 else 0))"

section \<open>A host for the examples\<close>

text \<open>
  For the examples the parameter \<open>parse\<close> is a reader of the event maps that the
  templates of the repository write: one JSON object whose keys and values are strings
  without escape sequences, with white space between the tokens; a key assigned twice
  keeps its first place and its last value, as a property of an object does. Any other
  text is answered with the \<^verbatim>\<open>SyntaxError\<close> that \<^verbatim>\<open>JSON.parse\<close> raises on a text
  that is not JSON. The examples below apply it to texts of that form and to a text with
  an unquoted key only.
\<close>

datatype token = LBrace | RBrace | Colon | Comma | Str string

definition isWhitespace :: "char \<Rightarrow> bool" where
  "isWhitespace c = (c = CHR 0x20 \<or> c = CHR 0x09 \<or> c = CHR 0x0A \<or> c = CHR 0x0D)"

fun tokens :: "string option \<Rightarrow> string \<Rightarrow> token list option" where
  "tokens None [] = Some []"
| "tokens (Some acc) [] = None"
| "tokens None (c # cs) =
     (if c = CHR 0x22 then tokens (Some []) cs
      else if isWhitespace c then tokens None cs
      else if c = CHR 0x7B then map_option ((#) LBrace) (tokens None cs)
      else if c = CHR 0x7D then map_option ((#) RBrace) (tokens None cs)
      else if c = CHR 0x3A then map_option ((#) Colon) (tokens None cs)
      else if c = CHR 0x2C then map_option ((#) Comma) (tokens None cs)
      else None)"
| "tokens (Some acc) (c # cs) =
     (if c = CHR 0x22 then map_option ((#) (Str (rev acc))) (tokens None cs)
      else if c = CHR 0x5C \<or> of_char c < (32 :: nat) then None
      else tokens (Some (c # acc)) cs)"

fun members :: "token list \<Rightarrow> (string \<times> string) list option" where
  "members [Str k, Colon, Str v, RBrace] = Some [(k, v)]"
| "members (Str k # Colon # Str v # Comma # rest) = map_option ((#) (k, v)) (members rest)"
| "members ts = None"

fun assignAll :: "(string \<times> string) list \<Rightarrow> (string \<times> string) list \<Rightarrow> (string \<times> string) list" where
  "assignAll [] obj = obj"
| "assignAll ((k, v) # rest) obj = assignAll rest (AList.update k v obj)"

definition parseFlatObject :: parser where
  "parseFlatObject text =
     (case tokens None text of
        None \<Rightarrow> Inl SyntaxError
      | Some [LBrace, RBrace] \<Rightarrow> Inr []
      | Some (LBrace # rest) \<Rightarrow>
          (case members rest of None \<Rightarrow> Inl SyntaxError | Some ms \<Rightarrow> Inr (assignAll ms []))
      | Some ts \<Rightarrow> Inl SyntaxError)"

subsection \<open>Sample trees, render functions and call sequences\<close>









definition sampleRender :: renderer where
  \<open>sampleRender st =
     [ElementNode ''DIV'' [(''class'', ''app'')]
        [ElementNode ''BUTTON'' [(''data-on'', ''{"click":"timer:start"}''), (''id'', ''go'')]
           [TextNode ''Start''] None,
         TextNode '' '',
         ElementNode ''INPUT''
           [(''data-id'', ''name''), (''data-on'', ''{"input": "rename", "keydown": "missing"}'')]
           [] (Some ('''', False))] None]\<close>

definition brokenText :: string where
  \<open>brokenText = ''{click: "timer:start"}''\<close>

definition brokenRender :: renderer where
  \<open>brokenRender st =
     [ElementNode ''BUTTON'' [(''data-on'', brokenText)] [TextNode ''Start''] None,
      ElementNode ''BUTTON'' [(''data-on'', ''{"click":"timer:start"}'')] [TextNode ''Again''] None]\<close>

definition sampleActions :: "action list" where
  "sampleActions =
     [SetState ''appName'' (VStr ''Act''), CreateScope ''timer'',
      ScopeSetState (''timer'', 0) ''seconds'' (VNum 0),
      ScopeOn (''timer'', 0) ''start'' 1, On ''rename'' 2,
      SafeSetInterval 3 1000, SafeSetTimeout 4 50]"

definition sampleApp :: app where
  "sampleApp = run parseFlatObject sampleActions (createApp [TextNode ''loading'', CommentNode ''x''])"

definition mountedSample :: app where
  "mountedSample =
     run parseFlatObject (sampleActions @ [Mount sampleRender])
       (createApp [TextNode ''loading'', CommentNode ''x''])"

definition brokenApp :: app where
  "brokenApp = sampleApp\<lparr>renderFn := Some brokenRender\<rparr>"

definition collidingActions :: "action list" where
  "collidingActions =
     [CreateScope ''a'', CreateScope ''a:b'',
      ScopeOn (''a'', 0) ''b:c'' 1, ScopeOn (''a:b'', 1) ''c'' 2]"

definition betweenCalls :: "action list" where
  "betweenCalls =
     [ScopeSetState (''timer'', 0) ''seconds'' (VNum 3), CreateScope ''todo'',
      Mount sampleRender, ScopeDestroy (''todo'', 1), Checkpoint]"

definition firstScope :: "app \<times> scopeRef property" where
  "firstScope = createScope ''timer'' (run parseFlatObject [SetState ''n'' (VNum 1)] (createApp []))"

section \<open>Properties of lib/diff.js\<close>

subsection \<open>Attribute synchronisation\<close>













subsection \<open>Convergence of the reconciliation\<close>






subsection \<open>The value of an input element\<close>











section \<open>Properties of lib/act.js\<close>

subsection \<open>What a render cycle leaves alone\<close>

lemma core_bindEntry: "core (bindEntry el e s) = core s" "renders (bindEntry el e s) = renders s"
  "container (bindEntry el e s) = container s"
  by (simp_all add: bindEntry_def core_def Let_def)

lemma core_bindEntries: "core (bindEntries el es s) = core s \<and> renders (bindEntries el es s) = renders s
   \<and> container (bindEntries el es s) = container s"
  by (induction es arbitrary: s) (simp_all add: core_bindEntry)

lemma core_bindElements:
  "core (outcome (bindElements parse ts s)) = core s \<and> renders (outcome (bindElements parse ts s)) = renders s"
proof (induction ts arbitrary: s)
  case Nil
  then show ?case by (simp add: outcome_def)
next
  case (Cons t ts)
  obtain p x where t: "t = (p, x)" by (cases t)
  show ?case
  proof (cases "parse x")
    case (Inl e)
    with t show ?thesis by (simp add: outcome_def)
  next
    case (Inr m)
    have "core (bindEntries (renders s, p) m s\<lparr>container := c\<rparr>) = core s" for c
      using core_bindEntries [of "(renders s, p)" m s] by (simp add: core_def)
    with Inr t Cons [of "(bindEntries (renders s, p) m s)\<lparr>container := removeAttributeAt p ''data-on'' (container (bindEntries (renders s, p) m s))\<rparr>"]
    show ?thesis by (simp add: Let_def core_bindEntries)
  qed
qed

lemma core_cleanupListeners: "core (cleanupListeners s) = core s"
  by (simp add: cleanupListeners_def core_def)

lemma core_rerender: "core (outcome (rerender parse s)) = core s"
proof (cases "renderFn s")
  case None
  then show ?thesis by (simp add: rerender_def outcome_def)
next
  case (Some f)
  then show ?thesis
    using core_cleanupListeners [of s]
    by (simp add: rerender_def Let_def bindEvents_def core_bindElements) (simp add: core_def)
qed

lemma renders_rerender:
  "renders (outcome (rerender parse s)) = (if renderFn s = None then renders s else Suc (renders s))"
proof (cases "renderFn s")
  case None
  then show ?thesis by (simp add: rerender_def outcome_def)
next
  case (Some f)
  then show ?thesis
    by (simp add: rerender_def Let_def bindEvents_def core_bindElements cleanupListeners_def)
qed

lemma core_mount: "core (outcome (mount parse fn s)) = core (s\<lparr>renderFn := Some fn, mounted := True\<rparr>)"
  by (simp add: mount_def core_rerender)

lemma run_append: "run parse (as @ bs) s = run parse bs (run parse as s)"
  by (induction as arbitrary: s) simp_all

lemma renderFn_mount: "renderFn (outcome (mount parse fn s)) = Some fn \<and> mounted (outcome (mount parse fn s))"
  using core_mount [of parse fn s] by (simp add: core_def)

lemma mountedSample_facts: "renderFn mountedSample = Some sampleRender" "mounted mountedSample"
  by (simp_all add: mountedSample_def run_append renderFn_mount)

subsection \<open>Destruction\<close>

lemma keys_delete: "fst ` set (AList.delete k d) = fst ` set d - {k}"
  by (simp add: delete_keys flip: set_map)

lemma deleteEach_covers: "fst ` set d \<subseteq> set ks \<Longrightarrow> deleteEach ks d = []"
proof (induction ks arbitrary: d)
  case Nil
  then show ?case by simp
next
  case (Cons k ks)
  have "fst ` set (AList.delete k d) \<subseteq> set ks"
    using Cons.prems by (auto simp: keys_delete)
  then show ?case by (simp add: Cons.IH)
qed

lemma deleteEach_keys: "deleteEach (keys d) d = []"
  by (rule deleteEach_covers) (simp add: keys_def)

lemma set_clearTimers: "set (clearTimers ids ts) = {t \<in> set ts. fst t \<notin> set ids}"
  by (induction ids arbitrary: ts) (auto simp: clearTimer_def)

lemma set_removeListeners: "set (removeListeners ls at) = set at - set ls"
  by (induction ls arbitrary: at) (auto simp: removeEventListener_def)


lemma shell_scopeDestroy: "shell (scopeDestroy r s) = shell s"
  by (simp add: scopeDestroy_def shell_def)

lemma scopes_scopeDestroy: "scopes (scopeDestroy r s) = AList.delete (fst r) (scopes s)"
  by (simp add: scopeDestroy_def)

lemma destroyScopes_total:
  "distinct names \<Longrightarrow> set names \<subseteq> fst ` set (scopes s) \<Longrightarrow>
   \<exists>s'. destroyScopes names s = Inr s' \<and> shell s' = shell s \<and>
        fst ` set (scopes s') = fst ` set (scopes s) - set names"
proof (induction names arbitrary: s)
  case Nil
  then show ?case by simp
next
  case (Cons n names)
  from Cons.prems obtain i where i: "map_of (scopes s) n = Some i"
    by (cases "map_of (scopes s) n") (auto simp: map_of_eq_None_iff)
  let ?s = "scopeDestroy (n, i) s"
  have keys: "fst ` set (scopes ?s) = fst ` set (scopes s) - {n}"
    by (simp add: scopes_scopeDestroy keys_delete)
  with Cons.prems have "distinct names" "set names \<subseteq> fst ` set (scopes ?s)" by auto
  from Cons.IH [OF this] obtain s' where
    "destroyScopes names ?s = Inr s'" "shell s' = shell ?s"
    "fst ` set (scopes s') = fst ` set (scopes ?s) - set names" by blast
  with i keys show ?case by (auto simp: shell_scopeDestroy)
qed

lemma destroyScopes_keys:
  "\<exists>s'. destroyScopes (keys (scopes s)) s = Inr s' \<and> shell s' = shell s \<and> scopes s' = []"
  using destroyScopes_total [of "keys (scopes s)" s] by (auto simp: keys_def)

lemma destroy_result:
  "\<exists>s'. destroy s = Inr s' \<and> container s' = [] \<and> globalState s' = [] \<and> scopes s' = [] \<and>
     handlers s' = [] \<and> intervals s' = [] \<and> timeouts s' = [] \<and> activeListeners s' = [] \<and>
     \<not> mounted s' \<and> renderFn s' = None \<and>
     set (timers s') = {t \<in> set (timers s). fst t \<notin> set (intervals s) \<and> fst t \<notin> set (timeouts s)} \<and>
     set (attached s') = set (attached s) - set (activeListeners s) \<and>
     rerenderScheduled s' = rerenderScheduled s \<and> microtasks s' = microtasks s \<and>
     renders s' = renders s \<and> nextTimer s' = nextTimer s \<and>
     console s' = console s @ [Destroyed]"
proof -
  let ?s4 = "cleanupListeners (s\<lparr>mounted := False, renderFn := None\<rparr>)
      \<lparr>timers := clearTimers (intervals s) (timers s)\<rparr>\<lparr>intervals := []\<rparr>
      \<lparr>timers := clearTimers (timeouts s) (clearTimers (intervals s) (timers s))\<rparr>\<lparr>timeouts := []\<rparr>"
  obtain s5 where s5: "destroyScopes (keys (scopes ?s4)) ?s4 = Inr s5" "shell s5 = shell ?s4"
    "scopes s5 = []"
    using destroyScopes_keys [of ?s4] by blast
  have d: "destroy s = Inr (s5\<lparr>container := [], globalState := [],
                     handlers := deleteEach (keys (handlers s5)) (handlers s5),
                     console := console s5 @ [Destroyed]\<rparr>)"
    using s5(1) by (simp add: destroy_def Let_def cleanupListeners_def)
  show ?thesis
    using s5(2,3) unfolding d
    by (auto simp: shell_def cleanupListeners_def deleteEach_keys set_clearTimers
        set_removeListeners)
qed

text \<open>
  Claim C10 (a second \<^verbatim>\<open>destroy\<close>). \<^verbatim>\<open>destroy()\<close> returns without an exception from
  every state, and a second \<^verbatim>\<open>destroy()\<close> right after it returns too and changes
  nothing but the console, which gets the line of the log once more: the container, the
  global state, the scope registry and the local states, the handler registry, the
  tracked and the host's timers, the recorded and the attached listeners, the mounted
  flag, the render function and the microtask queue are as the first call left them.
\<close>

theorem destroy_idempotent:
  "case destroy s of
     Inl err \<Rightarrow> False
   | Inr s1 \<Rightarrow> destroy s1 = Inr (s1\<lparr>console := console s1 @ [Destroyed]\<rparr>)"
proof -
  obtain s1 where s1: "destroy s = Inr s1" "container s1 = []" "globalState s1 = []"
    "scopes s1 = []" "handlers s1 = []" "intervals s1 = []" "timeouts s1 = []"
    "activeListeners s1 = []" "\<not> mounted s1" "renderFn s1 = None"
    using destroy_result [of s] by blast
  have "destroy s1 = Inr (s1\<lparr>console := console s1 @ [Destroyed]\<rparr>)"
    using s1(2-) by (cases s1) (simp add: destroy_def cleanupListeners_def keys_def)
  with s1(1) show ?thesis by simp
qed

lemma core_timersTracked: "core s' = core s \<Longrightarrow> timersTracked s' = timersTracked s"
  by (simp add: core_def timersTracked_def)

lemma core_runMicrotasks:
  "timersTracked (runMicrotasks parse n s) = timersTracked s"
proof (induction n arbitrary: s)
  case 0
  then show ?case by simp
next
  case (Suc n)
  have "core (rerenderTask parse s) = core (s\<lparr>microtasks := microtasks s - 1, rerenderScheduled := False\<rparr>)"
    by (simp add: rerenderTask_def core_rerender)
  then have "timersTracked (rerenderTask parse s) = timersTracked s"
    by (simp add: core_def timersTracked_def)
  with Suc show ?case by simp
qed

lemma timersTracked_step: "timersTracked s \<Longrightarrow> timersTracked (step parse a s)"
proof (cases a)
  case (Mount fn)
  have "timersTracked (outcome (mount parse fn s)) = timersTracked (s\<lparr>renderFn := Some fn, mounted := True\<rparr>)"
    by (rule core_timersTracked) (rule core_mount)
  moreover assume "timersTracked s"
  ultimately show ?thesis using Mount by (simp add: timersTracked_def)
next
  case Destroy
  obtain s' where "destroy s = Inr s'" "intervals s' = []" "timeouts s' = []"
    "set (timers s') = {t \<in> set (timers s). fst t \<notin> set (intervals s) \<and> fst t \<notin> set (timeouts s)}"
    using destroy_result [of s] by blast
  moreover assume "timersTracked s"
  ultimately show ?thesis using Destroy by (auto simp: timersTracked_def outcome_def)
next
  case Checkpoint
  assume "timersTracked s"
  then show ?thesis using Checkpoint by (simp add: checkpoint_def core_runMicrotasks)
qed (auto simp: timersTracked_def setState_def scheduleRerender_def deleteState_def createScope_def
      getScope_def getProperty_def scopeSetState_def scopeDeleteState_def scopeOn_def scopeOff_def scopeDestroy_def
      on_def off_def safeSetInterval_def safeClearInterval_def safeSetTimeout_def
      safeClearTimeout_def timeoutFires_def setAdd_def setDelete_def clearTimer_def Let_def
      split: option.splits if_splits property.splits)

lemma timersTracked_run: "timersTracked s \<Longrightarrow> timersTracked (run parse as s)"
  by (induction as arbitrary: s) (simp_all add: timersTracked_step)

subsection \<open>Scopes\<close>

lemma core_scopes: "core s' = core s \<Longrightarrow> scopes s' = scopes s \<and> localStates s' = localStates s"
  by (simp add: core_def)

lemma core_checkpoint_aux:
  "scopes (runMicrotasks parse n s) = scopes s \<and> localStates (runMicrotasks parse n s) = localStates s"
proof (induction n arbitrary: s)
  case 0
  then show ?case by simp
next
  case (Suc n)
  have "core (rerenderTask parse s) = core (s\<lparr>microtasks := microtasks s - 1, rerenderScheduled := False\<rparr>)"
    by (simp add: rerenderTask_def core_rerender)
  then have "scopes (rerenderTask parse s) = scopes s \<and> localStates (rerenderTask parse s) = localStates s"
    by (simp add: core_def)
  with Suc show ?case by simp
qed

lemma scopes_mount:
  "scopes (outcome (mount parse fn s)) = scopes s \<and> localStates (outcome (mount parse fn s)) = localStates s"
  using core_scopes [OF core_mount [of parse fn s]] by simp

lemma registered_step:
  assumes "map_of (scopes s) name = Some i" "i < length (localStates s)"
    and "\<not> destroysScope name a"
  shows "map_of (scopes (step parse a s)) name = Some i \<and> i < length (localStates (step parse a s))"
proof (cases a)
  case (Mount fn)
  with assms show ?thesis by (simp add: scopes_mount)
next
  case Checkpoint
  with assms show ?thesis by (simp add: checkpoint_def core_checkpoint_aux)
next
  case Destroy
  with assms show ?thesis by simp
qed (use assms in \<open>auto simp: setState_def scheduleRerender_def deleteState_def createScope_def
      getScope_def getProperty_def scopeSetState_def scopeDeleteState_def scopeOn_def scopeOff_def scopeDestroy_def
      on_def off_def safeSetInterval_def safeClearInterval_def safeSetTimeout_def
      safeClearTimeout_def timeoutFires_def Let_def update_conv' delete_conv'
      split: option.splits if_splits property.splits\<close>)

lemma registered_run:
  "map_of (scopes s) name = Some i \<Longrightarrow> i < length (localStates s) \<Longrightarrow>
   list_all (\<lambda>a. \<not> destroysScope name a) as \<Longrightarrow>
   map_of (scopes (run parse as s)) name = Some i \<and> i < length (localStates (run parse as s))"
proof (induction as arbitrary: s)
  case Nil
  then show ?case by simp
next
  case (Cons a as)
  from Cons.prems have "map_of (scopes (step parse a s)) name = Some i \<and> i < length (localStates (step parse a s))"
    by (intro registered_step) simp_all
  with Cons show ?case by simp
qed

lemma scopesInRange_step: "scopesInRange s \<Longrightarrow> scopesInRange (step parse a s)"
proof (cases a)
  case (Mount fn)
  assume "scopesInRange s"
  with Mount show ?thesis by (simp add: scopesInRange_def scopes_mount)
next
  case Checkpoint
  assume "scopesInRange s"
  with Checkpoint show ?thesis by (simp add: scopesInRange_def checkpoint_def core_checkpoint_aux)
next
  case Destroy
  obtain s' where "destroy s = Inr s'" "scopes s' = []"
    using destroy_result [of s] by blast
  with Destroy show ?thesis by (simp add: scopesInRange_def outcome_def)
qed (auto simp: scopesInRange_def setState_def scheduleRerender_def deleteState_def createScope_def
      getScope_def getProperty_def scopeSetState_def scopeDeleteState_def scopeOn_def scopeOff_def scopeDestroy_def
      on_def off_def safeSetInterval_def safeClearInterval_def safeSetTimeout_def
      safeClearTimeout_def timeoutFires_def Let_def update_conv' delete_conv' less_Suc_eq
      split: option.splits if_splits property.splits)

lemma scopesInRange_run: "scopesInRange s \<Longrightarrow> scopesInRange (run parse as s)"
  by (induction as arbitrary: s) (simp_all add: scopesInRange_step)

lemma scopeNamesOwn_iff: "scopeNamesOwn s = (fst ` set (scopes s) \<inter> set objectPrototype = {})"
  by (auto simp: scopeNamesOwn_def list_all_iff)

lemma scopeNamesOwn_step: "scopeNamesOwn s \<Longrightarrow> scopeNamesOwn (step parse a s)"
proof (cases a)
  case (Mount fn)
  assume "scopeNamesOwn s"
  with Mount show ?thesis by (simp add: scopeNamesOwn_iff scopes_mount)
next
  case Checkpoint
  assume "scopeNamesOwn s"
  with Checkpoint show ?thesis by (simp add: scopeNamesOwn_iff checkpoint_def core_checkpoint_aux)
next
  case Destroy
  obtain s' where "destroy s = Inr s'" "scopes s' = []"
    using destroy_result [of s] by blast
  with Destroy show ?thesis by (simp add: scopeNamesOwn_iff outcome_def)
qed (auto simp: scopeNamesOwn_iff setState_def scheduleRerender_def deleteState_def
      createScope_def getScope_def getProperty_def scopeSetState_def scopeDeleteState_def
      scopeOn_def scopeOff_def scopeDestroy_def on_def off_def safeSetInterval_def
      safeClearInterval_def safeSetTimeout_def safeClearTimeout_def timeoutFires_def Let_def
      dom_update keys_delete split: option.splits if_splits)

lemma scopeNamesOwn_run: "scopeNamesOwn s \<Longrightarrow> scopeNamesOwn (run parse as s)"
  by (induction as arbitrary: s) (simp_all add: scopeNamesOwn_step)

text \<open>
  Claim C9 (what \<^verbatim>\<open>destroy\<close> leaves). Take any calls and host events before
  \<^verbatim>\<open>mount()\<close> and any after it, then \<^verbatim>\<open>destroy()\<close>. It returns without an exception;
  the container has no content; no timer is left in the host's table, so no callback
  given to \<^verbatim>\<open>safeSetInterval\<close> or \<^verbatim>\<open>safeSetTimeout\<close> fires again, and none is tracked;
  the global state and the handler registry are empty. The registry of scopes is empty,
  and \<^verbatim>\<open>getScope(name)\<close> warns and returns the not-found signal for every name but
  those of the members that the registry object inherits, for which it returns the
  member without a warning. No scope was ever registered under such a name, for
  \<^verbatim>\<open>createScope\<close> takes the inherited member for a scope that exists: so the names of
  the scopes created before all get the not-found signal.
\<close>

theorem destroy_cleanup:
  "let s = run parse (before @ Mount fn # between) (createApp c);
       s' = step parse Destroy s
   in destroy s = Inr s' \<and> container s' = [] \<and>
      list_all (\<lambda>n. n \<notin> set objectPrototype) (map fst (scopes s)) \<and>
      scopes s' = [] \<and>
      getScope name s' =
        (if name \<in> set objectPrototype then (s', Inherited name)
         else (s'\<lparr>console := console s' @ [ScopeNotFound name]\<rparr>, Undefined)) \<and>
      timers s' = [] \<and> intervals s' = [] \<and> timeouts s' = [] \<and>
      globalState s' = [] \<and> handlers s' = []"
proof -
  define s where "s = run parse (before @ Mount fn # between) (createApp c)"
  obtain s' where s': "destroy s = Inr s'" "container s' = []" "globalState s' = []"
    "scopes s' = []" "handlers s' = []" "intervals s' = []" "timeouts s' = []"
    "set (timers s') = {t \<in> set (timers s). fst t \<notin> set (intervals s) \<and> fst t \<notin> set (timeouts s)}"
    using destroy_result [of s] by blast
  have "timersTracked (createApp c)" by (simp add: timersTracked_def createApp_def)
  then have "timersTracked s" unfolding s_def by (rule timersTracked_run)
  with s'(8) have "set (timers s') = {}" by (auto simp: timersTracked_def)
  then have t: "timers s' = []" by simp
  have "scopeNamesOwn (createApp c)" by (simp add: scopeNamesOwn_def createApp_def)
  then have "scopeNamesOwn s" unfolding s_def by (rule scopeNamesOwn_run)
  then have n: "list_all (\<lambda>n. n \<notin> set objectPrototype) (map fst (scopes s))"
    by (simp add: scopeNamesOwn_def)
  have g: "getScope name s' =
        (if name \<in> set objectPrototype then (s', Inherited name)
         else (s'\<lparr>console := console s' @ [ScopeNotFound name]\<rparr>, Undefined))"
    using s'(4) by (simp add: getScope_def getProperty_def)
  from s' t n g show ?thesis
    unfolding s_def [symmetric] by (simp add: outcome_def Let_def)
qed

lemma createScope_registers:
  assumes "scopesInRange s" "createScope name s = (s1, Own r1)"
  shows "fst r1 = name \<and> map_of (scopes s1) name = Some (snd r1) \<and> snd r1 < length (localStates s1)"
  using assms
  by (auto simp: createScope_def getProperty_def scopesInRange_def Let_def update_conv'
        split: option.splits if_splits)

lemma scopeSetState_visible:
  "snd r < length (localStates s) \<Longrightarrow> scopeGetState r k (scopeSetState r k v s) = Own v"
  by (simp add: scopeGetState_def scopeSetState_def scheduleRerender_def getProperty_def Let_def
        update_conv')

text \<open>
  Claim C7 (idempotent scope creation). In a state reached from \<^verbatim>\<open>createApp\<close> let
  \<^verbatim>\<open>createScope(name)\<close> return a scope \<open>r1\<close>, the one it has made or the one that was
  registered, and let any calls and events follow that do not destroy a scope of that
  name. Then \<^verbatim>\<open>createScope(name)\<close> returns the same scope instance \<open>r1\<close>; it changes
  nothing in the state, in particular not the scope's local state, but for the warning
  on the console; and what \<^verbatim>\<open>setState\<close> writes through one of the two references
  under a key other than \<^verbatim>\<open>__proto__\<close>, \<^verbatim>\<open>getState\<close> reads through the other. Under
  the name of a member that the registry object inherits, such as \<^verbatim>\<open>constructor\<close>,
  no scope is in the registry: there the first call returns that member and not a scope.
\<close>

theorem createScope_idempotent:
  assumes "list_all (\<lambda>a. \<not> destroysScope name a) between"
    and "createScope name (run parse before (createApp c)) = (s1, Own r1)"
    and "createScope name (run parse between s1) = (s3, r2)"
    and "k \<noteq> ''__proto__''"
  shows "s3 = (run parse between s1)\<lparr>console := console (run parse between s1) @ [ScopeExists name]\<rparr> \<and>
         (case r2 of
            Own r \<Rightarrow> r = r1 \<and>
              scopeGetState r k (scopeSetState r1 k v s3) = Own v \<and>
              scopeGetState r1 k (scopeSetState r k v s3) = Own v
          | Inherited m \<Rightarrow> False
          | Undefined \<Rightarrow> False)"
proof -
  let ?s0 = "run parse before (createApp c)"
  let ?s2 = "run parse between s1"
  have "scopesInRange (createApp c)" by (simp add: scopesInRange_def createApp_def)
  then have "scopesInRange ?s0" by (rule scopesInRange_run)
  from createScope_registers [OF this assms(2)]
  have r1: "fst r1 = name" "map_of (scopes s1) name = Some (snd r1)" "snd r1 < length (localStates s1)"
    by simp_all
  from registered_run [OF r1(2,3) assms(1)]
  have s2: "map_of (scopes ?s2) name = Some (snd r1)" "snd r1 < length (localStates ?s2)"
    by simp_all
  from s2(1) assms(3) r1(1)
  have eq: "r2 = Own r1" "s3 = ?s2\<lparr>console := console ?s2 @ [ScopeExists name]\<rparr>"
    by (auto simp: createScope_def getProperty_def prod_eq_iff)
  from eq(2) s2(2) have "snd r1 < length (localStates s3)" by simp
  with eq show ?thesis by (simp add: scopeSetState_visible)
qed

theorem createScope_idempotent_witness:
  "list_all (\<lambda>a. \<not> destroysScope ''timer'' a) betweenCalls \<and>
   snd firstScope = Own (''timer'', 0) \<and>
   ''k'' \<noteq> ''__proto__'' \<and>
   (case snd (createScope ''timer'' (run parseFlatObject betweenCalls (fst firstScope))) of
      Own r \<Rightarrow> r = (''timer'', 0) \<and>
        scopeGetState r ''k''
          (scopeSetState (''timer'', 0) ''k'' (VBool True)
             (fst (createScope ''timer'' (run parseFlatObject betweenCalls (fst firstScope)))))
          = Own (VBool True) \<and>
        scopeGetState (''timer'', 0) ''k''
          (scopeSetState r ''k'' (VBool True)
             (fst (createScope ''timer'' (run parseFlatObject betweenCalls (fst firstScope)))))
          = Own (VBool True)
    | Inherited m \<Rightarrow> False
    | Undefined \<Rightarrow> False)"
proof -
  have h: "list_all (\<lambda>a. \<not> destroysScope ''timer'' a) betweenCalls"
    by (simp add: betweenCalls_def)
  have f0: "snd firstScope = Own (''timer'', 0)"
    unfolding firstScope_def by code_simp
  have f: "createScope ''timer'' (run parseFlatObject [SetState ''n'' (VNum 1)] (createApp []))
             = (fst firstScope, Own (''timer'', 0))"
    using f0 by (simp add: firstScope_def prod_eq_iff)
  have k: "''k'' \<noteq> ''__proto__''" by simp
  show ?thesis
    using createScope_idempotent [OF h f prod.collapse [symmetric] k, where v = "VBool True"]
      h f0 k
    by (simp add: firstScope_def)
qed

subsection \<open>The keys of the handler registry\<close>

text \<open>
  Claim C5, as it is stated, fails: the scope \<^verbatim>\<open>a\<close> with the handler \<^verbatim>\<open>b:c\<close> and the
  scope \<^verbatim>\<open>a:b\<close> with the handler \<^verbatim>\<open>c\<close> are two scopes with the one key
  \<^verbatim>\<open>a:b:c\<close>. After both have registered, the registry holds the second scope's
  callback under the key of the first scope's handler.
\<close>

theorem scoped_handlers_counterexample:
  "snd (createScope ''a'' (createApp [])) = Own (''a'', 0) \<and>
   snd (createScope ''a:b'' (fst (createScope ''a'' (createApp [])))) = Own (''a:b'', 1) \<and>
   scopeHandler (''a'', 0) ''b:c'' = scopeHandler (''a:b'', 1) ''c'' \<and>
   handlers (run parseFlatObject collidingActions (createApp [])) = [(''a:b:c'', 2)]"
  unfolding collidingActions_def by code_simp

lemma takeWhile_key:
  "CHR '':'' \<notin> set n \<Longrightarrow> takeWhile (\<lambda>c. c \<noteq> CHR '':'') (n @ '':'' @ h) = n"
  by (induction n) auto

lemma scoped_keys_differ:
  assumes "CHR '':'' \<notin> set n1" "CHR '':'' \<notin> set n2" "n1 \<noteq> n2"
  shows "n1 @ '':'' @ h1 \<noteq> n2 @ '':'' @ h2"
proof
  assume "n1 @ '':'' @ h1 = n2 @ '':'' @ h2"
  then have "takeWhile (\<lambda>c. c \<noteq> CHR '':'') (n1 @ '':'' @ h1)
           = takeWhile (\<lambda>c. c \<noteq> CHR '':'') (n2 @ '':'' @ h2)" by simp
  then have "n1 = n2"
    unfolding takeWhile_key [OF assms(1)] takeWhile_key [OF assms(2)] .
  with assms(3) show False by simp
qed

text \<open>
  Claim C5, amended. For two scopes of different names, neither of which contains the
  character \<^verbatim>\<open>:\<close>, the keys of their handlers differ, whatever the handler names are;
  so \<^verbatim>\<open>on\<close> and \<^verbatim>\<open>off\<close> of one scope leave every entry of the other as it is, and
  the registry never holds handlers of both under one key.
\<close>

theorem scoped_handlers_do_not_collide:
  assumes "CHR '':'' \<notin> set (fst r1)" "CHR '':'' \<notin> set (fst r2)" "fst r1 \<noteq> fst r2"
  shows "scopeHandler r1 h1 \<noteq> scopeHandler r2 h2 \<and>
         map_of (handlers (scopeOn r2 h2 fn s)) (scopeHandler r1 h1) =
           map_of (handlers s) (scopeHandler r1 h1) \<and>
         map_of (handlers (scopeOff r2 h2 s)) (scopeHandler r1 h1) =
           map_of (handlers s) (scopeHandler r1 h1)"
  using scoped_keys_differ [OF assms, of h1 h2]
  by (simp add: scopeHandler_def scopeOn_def scopeOff_def update_conv' delete_conv')

theorem scoped_handlers_do_not_collide_witness:
  "CHR '':'' \<notin> set (fst (''timer'', 0::nat)) \<and> CHR '':'' \<notin> set (fst (''todo'', 1::nat)) \<and>
   fst (''timer'', 0::nat) \<noteq> fst (''todo'', 1::nat) \<and>
   scopeHandler (''timer'', 0) ''start'' \<noteq> scopeHandler (''todo'', 1) ''start'' \<and>
   map_of (handlers (scopeOn (''todo'', 1) ''start'' 7 sampleApp)) (scopeHandler (''timer'', 0) ''start'') =
     map_of (handlers sampleApp) (scopeHandler (''timer'', 0) ''start'') \<and>
   map_of (handlers (scopeOff (''todo'', 1) ''start'' sampleApp)) (scopeHandler (''timer'', 0) ''start'') =
     map_of (handlers sampleApp) (scopeHandler (''timer'', 0) ''start'')"
proof -
  have h: "CHR '':'' \<notin> set (fst (''timer'', 0::nat))" "CHR '':'' \<notin> set (fst (''todo'', 1::nat))"
    "fst (''timer'', 0::nat) \<noteq> fst (''todo'', 1::nat)"
    by simp_all
  show ?thesis
    using scoped_handlers_do_not_collide [OF h, of "''start''" "''start''" 7 sampleApp] h by blast
qed

subsection \<open>The content of the container\<close>

lemma eraseDataOn_removeAttributeOf: "eraseDataOn (removeAttributeOf ''data-on'' n) = eraseDataOn n"
  by (cases n) (simp_all add: withoutAttribute_def delete_idem)

lemma eraseDataOn_withChildNodes:
  "map eraseDataOn cs' = map eraseDataOn (childNodes n) \<Longrightarrow>
   eraseDataOn (withChildNodes n cs') = eraseDataOn n"
  by (cases n) simp_all

lemma eraseDataOn_removeAttributeAt:
  "map eraseDataOn (removeAttributeAt p ''data-on'' ns) = map eraseDataOn ns"
proof (induction p "''data-on''" ns rule: removeAttributeAt.induct)
  case (1 ns)
  then show ?case by simp
next
  case (2 i ns)
  then show ?case
    by (simp add: map_update eraseDataOn_removeAttributeOf list_update_same_conv)
next
  case (3 i j p ns)
  then show ?case
    by (simp add: map_update eraseDataOn_withChildNodes list_update_same_conv)
qed

lemma eraseDataOn_bindElements:
  "map eraseDataOn (container (outcome (bindElements parse ts s))) = map eraseDataOn (container s)"
proof (induction ts arbitrary: s)
  case Nil
  then show ?case by (simp add: outcome_def)
next
  case (Cons t ts)
  obtain p x where t: "t = (p, x)" by (cases t)
  show ?case
  proof (cases "parse x")
    case (Inl e)
    with t show ?thesis by (simp add: outcome_def)
  next
    case (Inr m)
    with t show ?thesis
      by (simp add: Let_def Cons.IH eraseDataOn_removeAttributeAt core_bindEntries)
  qed
qed

text \<open>
  Claim C2 (full replacement). A render cycle, the one \<^verbatim>\<open>mount\<close> runs as well as a
  later \<^verbatim>\<open>rerender\<close>, puts the nodes of the fragment that \<^verbatim>\<open>renderFn\<close> returns in the
  place of the whole content of the container: \<^verbatim>\<open>bindEvents\<close> is called on a container
  whose children are the fragment's nodes, and after the cycle the children of the
  container are these nodes, in their order and with their own state, without the
  \<^verbatim>\<open>data-on\<close> attributes that \<^verbatim>\<open>bindEvents\<close> has taken off them. Nothing of the former
  content is kept or patched. This holds whether or not the cycle ends with an exception
  of \<^verbatim>\<open>bindEvents\<close>.
\<close>

theorem rerender_replaces_content:
  "map eraseDataOn (container (outcome (mount parse fn s))) =
     map eraseDataOn (fn (globalState s, scopes s, localStates s)) \<and>
   (renderFn s' = Some fn' \<longrightarrow>
    rerender parse s' =
      bindEvents parse
        (cleanupListeners s'
           \<lparr>renders := renders s' + 1,
            container := fn' (globalState s', scopes s', localStates s')\<rparr>) \<and>
    map eraseDataOn (container (outcome (rerender parse s'))) =
      map eraseDataOn (fn' (globalState s', scopes s', localStates s')))"
proof -
  have r: "rerender parse t =
      bindEvents parse
        (cleanupListeners t
           \<lparr>renders := renders t + 1,
            container := g (globalState t, scopes t, localStates t)\<rparr>)"
    if "renderFn t = Some g" for t g
    using that by (simp add: rerender_def Let_def cleanupListeners_def)
  have e: "map eraseDataOn (container (outcome (rerender parse t))) =
          map eraseDataOn (g (globalState t, scopes t, localStates t))"
    if "renderFn t = Some g" for t g
    unfolding r [OF that] by (simp add: bindEvents_def eraseDataOn_bindElements)
  from e [of "s\<lparr>renderFn := Some fn, mounted := True\<rparr>" fn] e [of s' fn'] r [of s' fn']
  show ?thesis by (simp add: mount_def)
qed

theorem rerender_replaces_content_witness:
  "renderFn mountedSample = Some sampleRender \<and>
   map eraseDataOn (container (outcome (mount parseFlatObject sampleRender sampleApp))) =
     map eraseDataOn (sampleRender (globalState sampleApp, scopes sampleApp, localStates sampleApp)) \<and>
   rerender parseFlatObject mountedSample =
     bindEvents parseFlatObject
       (cleanupListeners mountedSample
          \<lparr>renders := renders mountedSample + 1,
           container :=
             sampleRender (globalState mountedSample, scopes mountedSample, localStates mountedSample)\<rparr>) \<and>
   map eraseDataOn (container (outcome (rerender parseFlatObject mountedSample))) =
     map eraseDataOn
       (sampleRender (globalState mountedSample, scopes mountedSample, localStates mountedSample))"
  using rerender_replaces_content
      [of parseFlatObject sampleRender sampleApp mountedSample sampleRender]
    mountedSample_facts(1)
  by blast

lemma bindElements_raises:
  "(p, text) \<in> set ts \<Longrightarrow> parse text = Inl e \<Longrightarrow>
   \<exists>e' s' q text'. bindElements parse ts s = Inl (e', s') \<and> (q, text') \<in> set ts \<and> parse text' = Inl e'"
proof (induction ts arbitrary: s)
  case Nil
  then show ?case by simp
next
  case (Cons t ts)
  obtain q x where t: "t = (q, x)" by (cases t)
  show ?case
  proof (cases "parse x")
    case (Inl e0)
    with t show ?thesis by auto
  next
    case (Inr m)
    with Cons.prems t have "(p, text) \<in> set ts" by auto
    from Cons.IH [OF this Cons.prems(2)] Inr t show ?thesis
      by (simp add: Let_def) blast
  qed
qed

text \<open>
  Claim C4, as it is stated, fails: for a \<^verbatim>\<open>data-on\<close> attribute with an unquoted key
  \<^verbatim>\<open>JSON.parse\<close> raises a \<^verbatim>\<open>SyntaxError\<close> that nothing catches. It leaves
  \<^verbatim>\<open>bindEvents\<close>, \<^verbatim>\<open>rerender\<close> and \<^verbatim>\<open>mount\<close>; the console has no diagnostic, and
  the well-formed button after the malformed one has no listener.
\<close>

theorem malformed_data_on_counterexample:
  "parseFlatObject brokenText = Inl SyntaxError \<and>
   (case mount parseFlatObject brokenRender sampleApp of
      Inl (e, s') \<Rightarrow> e = SyntaxError \<and> console s' = console sampleApp \<and> activeListeners s' = []
    | Inr s' \<Rightarrow> False)"
  by code_simp

text \<open>
  Claim C4, amended. When the content that the render function returns has an element
  whose \<^verbatim>\<open>data-on\<close> attribute the parser rejects, the exception leaves
  \<^verbatim>\<open>bindEvents\<close> on that content and with it \<^verbatim>\<open>rerender\<close> and \<^verbatim>\<open>mount\<close>: the render
  cycle is aborted.
\<close>

theorem malformed_data_on_raises:
  assumes "renderFn s = Some fn"
    and "(p, text) \<in> set (querySelectorAll_data_on (fn (globalState s, scopes s, localStates s)))"
    and "parse text = Inl e"
  shows "isl (rerender parse s) \<and> isl (mount parse fn s) \<and>
         isl (bindEvents parse (s\<lparr>container := fn (globalState s, scopes s, localStates s)\<rparr>))"
proof -
  let ?ts = "querySelectorAll_data_on (fn (globalState s, scopes s, localStates s))"
  have "isl (bindElements parse ?ts s')" for s'
    using bindElements_raises [of p "text" ?ts parse e s'] assms(2,3) by auto
  then show ?thesis
    using assms(1) by (simp add: rerender_def mount_def Let_def bindEvents_def cleanupListeners_def)
qed

theorem malformed_data_on_raises_witness:
  "renderFn brokenApp = Some brokenRender \<and>
   ([0], brokenText) \<in> set (querySelectorAll_data_on
      (brokenRender (globalState brokenApp, scopes brokenApp, localStates brokenApp))) \<and>
   parseFlatObject brokenText = Inl SyntaxError \<and>
   isl (rerender parseFlatObject brokenApp) \<and>
   isl (mount parseFlatObject brokenRender brokenApp) \<and>
   isl (bindEvents parseFlatObject (brokenApp
          \<lparr>container := brokenRender (globalState brokenApp, scopes brokenApp, localStates brokenApp)\<rparr>))"
proof -
  have h1: "renderFn brokenApp = Some brokenRender" by (simp add: brokenApp_def)
  have h2: "([0], brokenText) \<in> set (querySelectorAll_data_on
      (brokenRender (globalState brokenApp, scopes brokenApp, localStates brokenApp)))"
    by (simp add: brokenRender_def querySelectorAll_data_on_def getAttribute_def)
  have h3: "parseFlatObject brokenText = Inl SyntaxError"
    by code_simp
  show ?thesis
    using malformed_data_on_raises [of brokenApp brokenRender "[0]" brokenText parseFlatObject SyntaxError]
      h1 h2 h3 by blast
qed

subsection \<open>Listeners\<close>






lemma generation_resolve: "l \<in> set (resolve hs el m) \<Longrightarrow> fst l = el"
  by (induction m) (auto split: if_splits)

lemma generation_declared: "l \<in> set (declared parse hs g ts) \<Longrightarrow> fst (fst l) = g"
  by (induction ts) (auto split: sum.splits dest: generation_resolve)









lemma bindEntry_inherited:
  "bindEntry el (''click'', ''toString'') (createApp c) =
     (createApp c)\<lparr>attached := [(el, ''click'', Inherited ''toString'')],
       activeListeners := [(el, ''click'', Inherited ''toString'')]\<rparr>"
  by (simp add: bindEntry_def getProperty_def objectPrototype_def createApp_def
        addEventListener_def Let_def)




subsection \<open>Scheduling\<close>

lemma core_queueConsistent: "core s' = core s \<Longrightarrow> queueConsistent s' = queueConsistent s"
  by (simp add: core_def queueConsistent_def)

lemma queueConsistent_rerenderTask:
  "queueConsistent s \<Longrightarrow> rerenderScheduled s \<Longrightarrow> queueConsistent (rerenderTask parse s)"
proof -
  assume a: "queueConsistent s" "rerenderScheduled s"
  have "core (rerenderTask parse s) = core (s\<lparr>microtasks := microtasks s - 1, rerenderScheduled := False\<rparr>)"
    by (simp add: rerenderTask_def core_rerender)
  then have "queueConsistent (rerenderTask parse s)
               = queueConsistent (s\<lparr>microtasks := microtasks s - 1, rerenderScheduled := False\<rparr>)"
    by (rule core_queueConsistent)
  with a show ?thesis by (simp add: queueConsistent_def)
qed

lemma queueConsistent_checkpoint: "queueConsistent s \<Longrightarrow> queueConsistent (checkpoint parse s)"
proof (cases "rerenderScheduled s")
  case True
  assume a: "queueConsistent s"
  with True have "microtasks s = Suc 0" by (simp add: queueConsistent_def)
  with a True show ?thesis by (simp add: checkpoint_def queueConsistent_rerenderTask)
next
  case False
  assume a: "queueConsistent s"
  with False have "microtasks s = 0" by (simp add: queueConsistent_def)
  with a show ?thesis by (simp add: checkpoint_def)
qed

lemma queueConsistent_step: "queueConsistent s \<Longrightarrow> queueConsistent (step parse a s)"
proof (cases a)
  case (Mount fn)
  have "queueConsistent (outcome (mount parse fn s)) = queueConsistent (s\<lparr>renderFn := Some fn, mounted := True\<rparr>)"
    by (rule core_queueConsistent) (rule core_mount)
  moreover assume "queueConsistent s"
  ultimately show ?thesis using Mount by (simp add: queueConsistent_def)
next
  case Destroy
  obtain s' where "destroy s = Inr s'" "\<not> mounted s'" "rerenderScheduled s' = rerenderScheduled s"
    "microtasks s' = microtasks s"
    using destroy_result [of s] by blast
  moreover assume "queueConsistent s"
  ultimately show ?thesis using Destroy by (simp add: queueConsistent_def outcome_def)
next
  case Checkpoint
  assume "queueConsistent s"
  then show ?thesis using Checkpoint by (simp add: queueConsistent_checkpoint)
qed (auto simp: queueConsistent_def setState_def scheduleRerender_def deleteState_def createScope_def
      getScope_def getProperty_def scopeSetState_def scopeDeleteState_def scopeOn_def scopeOff_def scopeDestroy_def
      on_def off_def safeSetInterval_def safeClearInterval_def safeSetTimeout_def
      safeClearTimeout_def timeoutFires_def Let_def
      split: option.splits if_splits property.splits)

lemma queueConsistent_run: "queueConsistent s \<Longrightarrow> queueConsistent (run parse as s)"
  by (induction as arbitrary: s) (simp_all add: queueConsistent_step)

lemma setState_step:
  assumes "isSetState a" "mounted s" "queueConsistent s"
  shows "mounted (step parse a s) \<and> queueConsistent (step parse a s) \<and>
         rerenderScheduled (step parse a s) \<and> renders (step parse a s) = renders s"
  using assms
  by (cases a) (auto simp: queueConsistent_def setState_def scopeSetState_def scheduleRerender_def Let_def)

lemma setState_run:
  "list_all isSetState calls \<Longrightarrow> calls \<noteq> [] \<Longrightarrow> mounted s \<Longrightarrow> queueConsistent s \<Longrightarrow>
   mounted (run parse calls s) \<and> queueConsistent (run parse calls s) \<and>
   rerenderScheduled (run parse calls s) \<and> renders (run parse calls s) = renders s"
proof (induction calls arbitrary: s)
  case Nil
  then show ?case by simp
next
  case (Cons a calls)
  from Cons.prems have st: "mounted (step parse a s) \<and> queueConsistent (step parse a s) \<and>
         rerenderScheduled (step parse a s) \<and> renders (step parse a s) = renders s"
    by (intro setState_step) simp_all
  show ?case
  proof (cases "calls = []")
    case True
    with st show ?thesis by simp
  next
    case False
    with Cons.IH [of "step parse a s"] Cons.prems st show ?thesis by simp
  qed
qed

text \<open>
  Claim C3 (one render for a block of \<^verbatim>\<open>setState\<close> calls). In a mounted state
  reached from \<^verbatim>\<open>createApp\<close>, after one or more calls of \<^verbatim>\<open>setState\<close>, of the
  application or of scopes, no render cycle has run yet and the microtask queue holds one
  callback; the host's next microtask checkpoint runs exactly one render cycle and leaves
  the queue empty and nothing scheduled.
\<close>

theorem setState_calls_render_once:
  assumes "s = run parse before (createApp c)" and "mounted s"
    and "calls \<noteq> []" and "list_all isSetState calls"
  shows "let s1 = run parse calls s; s2 = checkpoint parse s1
         in renders s1 = renders s \<and> microtasks s1 = 1 \<and>
            renders s2 = renders s + 1 \<and> microtasks s2 = 0 \<and> \<not> rerenderScheduled s2"
proof -
  have "queueConsistent (createApp c)" by (simp add: queueConsistent_def createApp_def)
  then have q: "queueConsistent s" unfolding assms(1) by (rule queueConsistent_run)
  let ?s1 = "run parse calls s"
  from setState_run [OF assms(4,3,2) q]
  have s1: "mounted ?s1" "queueConsistent ?s1" "rerenderScheduled ?s1" "renders ?s1 = renders s"
    by simp_all
  then have m: "microtasks ?s1 = Suc 0" and f: "renderFn ?s1 \<noteq> None"
    by (simp_all add: queueConsistent_def)
  let ?t = "?s1\<lparr>microtasks := microtasks ?s1 - 1, rerenderScheduled := False\<rparr>"
  have c: "checkpoint parse ?s1 = outcome (rerender parse ?t)"
    using m by (simp add: checkpoint_def rerenderTask_def)
  have "renders (outcome (rerender parse ?t)) = Suc (renders ?s1)"
    using f by (simp add: renders_rerender)
  moreover have "core (outcome (rerender parse ?t)) = core ?t" by (rule core_rerender)
  then have "microtasks (outcome (rerender parse ?t)) = 0"
    "\<not> rerenderScheduled (outcome (rerender parse ?t))"
    using m by (simp_all add: core_def)
  ultimately show ?thesis
    using s1(4) m unfolding Let_def c by simp
qed

theorem setState_calls_render_once_witness:
  "mounted mountedSample \<and>
   [SetState ''appName'' (VStr ''Act 2''), ScopeSetState (''timer'', 0) ''seconds'' (VNum 1),
    SetState ''theme'' (VStr ''dark'')] \<noteq> [] \<and>
   list_all isSetState
     [SetState ''appName'' (VStr ''Act 2''), ScopeSetState (''timer'', 0) ''seconds'' (VNum 1),
      SetState ''theme'' (VStr ''dark'')] \<and>
   (let s1 = run parseFlatObject
               [SetState ''appName'' (VStr ''Act 2''), ScopeSetState (''timer'', 0) ''seconds'' (VNum 1),
                SetState ''theme'' (VStr ''dark'')] mountedSample;
        s2 = checkpoint parseFlatObject s1
    in renders s1 = renders mountedSample \<and> microtasks s1 = 1 \<and>
       renders s2 = renders mountedSample + 1 \<and> microtasks s2 = 0 \<and> \<not> rerenderScheduled s2)"
proof -
  have h: "[SetState ''appName'' (VStr ''Act 2''), ScopeSetState (''timer'', 0) ''seconds'' (VNum 1),
    SetState ''theme'' (VStr ''dark'')] \<noteq> []"
    "list_all isSetState
     [SetState ''appName'' (VStr ''Act 2''), ScopeSetState (''timer'', 0) ''seconds'' (VNum 1),
      SetState ''theme'' (VStr ''dark'')]"
    by simp_all
  show ?thesis
    using setState_calls_render_once [OF mountedSample_def mountedSample_facts(2) h]
      mountedSample_facts(2) h by blast
qed

end
